theory Spec2Isabelle
  imports Complex_Main
begin

section \<open>Python string primitives used by the streaming endpoint\<close>

text \<open>
  A Python \<open>str\<close> is modelled as a \<open>string\<close>; a character is one code point below 256,
  which covers every character of the response template of \<open>src/app.py\<close>.
  \<open>isspace\<close> is Python's \<open>str.isspace\<close> on one character of that range: it is the
  whitespace that \<open>str.split()\<close> and \<open>str.strip()\<close> use when called with no argument.
\<close>

definition isspace :: "char \<Rightarrow> bool" where
  "isspace c \<longleftrightarrow> c \<in> set [CHR 0x09, CHR 0x0A, CHR 0x0B, CHR 0x0C, CHR 0x0D,
                          CHR 0x1C, CHR 0x1D, CHR 0x1E, CHR 0x1F, CHR 0x20, CHR 0x85, CHR 0xA0]"

text \<open>
  \<open>text.split()\<close>: scan the string, collecting the current word in \<open>w\<close>; a whitespace
  character closes a non-empty word, runs of whitespace produce nothing.
\<close>

fun split_from :: "string \<Rightarrow> string \<Rightarrow> string list" where
  "split_from w [] = (if w = [] then [] else [w])"
| "split_from w (c # cs) =
     (if isspace c then (if w = [] then split_from [] cs else w # split_from [] cs)
      else split_from (w @ [c]) cs)"

definition str_split :: "string \<Rightarrow> string list" where
  "str_split s = split_from [] s"

text \<open>\<open>sep.join(xs)\<close>.\<close>

fun str_join :: "string \<Rightarrow> string list \<Rightarrow> string" where
  "str_join sep [] = []"
| "str_join sep [x] = x"
| "str_join sep (x # y # ys) = x @ sep @ str_join sep (y # ys)"

text \<open>\<open>s.strip()\<close>.\<close>

definition str_strip :: "string \<Rightarrow> string" where
  "str_strip s = rev (dropWhile isspace (rev (dropWhile isspace s)))"

section \<open>The chunker\<close>

text \<open>
  \<open>chunk_text\<close> of \<open>src/app.py\<close> (the copy in \<open>streaming_llm_api.py\<close> is the same code).
  The loop state is \<open>(chunks, current_chunk, current_length)\<close>; Python's unbounded
  integers are \<open>int\<close>.
\<close>

fun chunk_loop :: "int \<Rightarrow> string list \<Rightarrow> string list \<times> string list \<times> int
                     \<Rightarrow> string list \<times> string list \<times> int" where
  "chunk_loop chunk_size [] st = st"
| "chunk_loop chunk_size (word # ws) (chunks, current_chunk, current_length) =
     (if current_length + int (length word) > chunk_size \<and> current_chunk \<noteq> []
      then chunk_loop chunk_size ws
             (chunks @ [str_join '' '' current_chunk], [word], int (length word))
      else chunk_loop chunk_size ws
             (chunks, current_chunk @ [word], current_length + int (length word) + 1))"

definition chunk_text :: "string \<Rightarrow> int \<Rightarrow> string list" where
  "chunk_text text chunk_size =
     (case chunk_loop chunk_size (str_split text) ([], [], 0) of
        (chunks, current_chunk, current_length) \<Rightarrow>
          if current_chunk \<noteq> [] then chunks @ [str_join '' '' current_chunk] else chunks)"

text \<open>
  The same loop keeping each closed chunk as its list of words; \<open>chunk_loop\<close> stores the
  join of each of these groups (lemma \<open>chunk_loop_groups\<close>).
\<close>

fun group_loop :: "int \<Rightarrow> string list \<Rightarrow> string list list \<times> string list \<times> int
                     \<Rightarrow> string list list \<times> string list \<times> int" where
  "group_loop n [] st = st"
| "group_loop n (word # ws) (groups, cur, len) =
     (if len + int (length word) > n \<and> cur \<noteq> []
      then group_loop n ws (groups @ [cur], [word], int (length word))
      else group_loop n ws (groups, cur @ [word], len + int (length word) + 1))"

definition chunk_groups :: "string \<Rightarrow> int \<Rightarrow> string list list" where
  "chunk_groups text n =
     (case group_loop n (str_split text) ([], [], 0) of
        (groups, cur, len) \<Rightarrow> if cur \<noteq> [] then groups @ [cur] else groups)"

text \<open>
  How many chunks the loop closes on the words \<open>ws\<close>, entered with a current chunk that is
  not empty and has the count \<open>len\<close>.
\<close>

fun closes :: "int \<Rightarrow> int \<Rightarrow> string list \<Rightarrow> nat" where
  "closes n len [] = 0"
| "closes n len (word # ws) =
     (if len + int (length word) > n then Suc (closes n (int (length word)) ws)
      else closes n (len + int (length word) + 1) ws)"

section \<open>The chunker as the specification words it\<close>

text \<open>
  The reference algorithm of the specification: tokenize on whitespace into words;
  accumulate words into the current chunk while \<open>current_length + len(word) \<le> max_chunk_chars\<close>;
  when adding the next word would exceed the cap, close the current chunk (the accumulated
  words joined with single spaces) and start a new chunk with that word; flush the trailing
  chunk at the end of input. Empty input yields no chunk, so closing or flushing a chunk
  that holds no word emits nothing. The specification does not say how \<open>current_length\<close>
  measures the current chunk, so the measure \<open>m\<close> is a parameter; the two readings of it
  are \<open>len_joined\<close>, the length of the chunk's text, and \<open>len_with_sep\<close>, which counts one
  separator for each accumulated word, so that the test decides whether the chunk with
  the word added stays within the cap.
\<close>

fun spec_loop :: "(string list \<Rightarrow> int) \<Rightarrow> int \<Rightarrow> string list \<Rightarrow> string list \<times> string list
                    \<Rightarrow> string list \<times> string list" where
  "spec_loop m cap [] st = st"
| "spec_loop m cap (word # ws) (chunks, cur) =
     (if m cur + int (length word) \<le> cap
      then spec_loop m cap ws (chunks, cur @ [word])
      else spec_loop m cap ws
             (if cur = [] then chunks else chunks @ [str_join '' '' cur], [word]))"

definition spec_chunk :: "(string list \<Rightarrow> int) \<Rightarrow> string \<Rightarrow> int \<Rightarrow> string list" where
  "spec_chunk m text cap =
     (case spec_loop m cap (str_split text) ([], []) of
        (chunks, cur) \<Rightarrow> if cur = [] then chunks else chunks @ [str_join '' '' cur])"

definition len_joined :: "string list \<Rightarrow> int" where
  "len_joined cur = int (length (str_join '' '' cur))"

definition len_with_sep :: "string list \<Rightarrow> int" where
  "len_with_sep cur = sum_list (map (\<lambda>w. int (length w) + 1) cur)"

section \<open>The content synthesizer\<close>

text \<open>\<open>generate_streaming_content\<close> of \<open>src/app.py\<close>: the f-string, one literal per source line.\<close>

definition generate_streaming_content :: "string \<Rightarrow> string" where
  "generate_streaming_content prompt =
     ''Based on your prompt '' @ [CHR 0x27] @ prompt @ [CHR 0x27] @
     '', here's a comprehensive response:\<newline>'' @
     ''\<newline>'' @
     ''The streaming API enables real-time content delivery, significantly improving user experience by providing immediate feedback. This implementation uses Server-Sent Events (SSE) to progressively stream JSON chunks to clients.\<newline>'' @
     ''\<newline>'' @
     ''Key Features:\<newline>'' @
     ''- Non-blocking streaming architecture\<newline>'' @
     ''- Error handling with graceful degradation\<newline>'' @
     ''- Support for multiple concurrent connections\<newline>'' @
     ''- Proper resource cleanup and connection management\<newline>'' @
     ''\<newline>'' @
     ''Performance Characteristics:\<newline>'' @
     ''- First token latency: <2000ms\<newline>'' @
     ''- Throughput: >30 tokens/second\<newline>'' @
     ''- Connection pooling enabled\<newline>'' @
     ''- Automatic backpressure handling\<newline>'' @
     ''\<newline>'' @
     ''The response is delivered in 6+ chunks for demonstration:\<newline>'' @
     ''This ensures responsive user interfaces and better perceived performance.\<newline>'' @
     ''Each chunk is sent as soon as available, without waiting for completion.\<newline>'' @
     ''The streaming paradigm revolutionizes how we deliver AI-generated content.\<newline>'' @
     ''Real-time feedback transforms user engagement and satisfaction metrics.\<newline>'' @
     ''Implementation details follow industry best practices and standards.\<newline>'' @
     ''This comprehensive solution meets all specified requirements and exceeds expectations.\<newline>'' @
     ''Production-ready streaming infrastructure for maximum reliability and scalability.''"

text \<open>
  The part of the template that follows the prompt and the text \<open>', \<close> after it, for the
  proofs on the content.
\<close>

definition content_tail :: string where
  "content_tail =
     ''here's a comprehensive response:\<newline>'' @
     ''\<newline>'' @
     ''The streaming API enables real-time content delivery, significantly improving user experience by providing immediate feedback. This implementation uses Server-Sent Events (SSE) to progressively stream JSON chunks to clients.\<newline>'' @
     ''\<newline>'' @
     ''Key Features:\<newline>'' @
     ''- Non-blocking streaming architecture\<newline>'' @
     ''- Error handling with graceful degradation\<newline>'' @
     ''- Support for multiple concurrent connections\<newline>'' @
     ''- Proper resource cleanup and connection management\<newline>'' @
     ''\<newline>'' @
     ''Performance Characteristics:\<newline>'' @
     ''- First token latency: <2000ms\<newline>'' @
     ''- Throughput: >30 tokens/second\<newline>'' @
     ''- Connection pooling enabled\<newline>'' @
     ''- Automatic backpressure handling\<newline>'' @
     ''\<newline>'' @
     ''The response is delivered in 6+ chunks for demonstration:\<newline>'' @
     ''This ensures responsive user interfaces and better perceived performance.\<newline>'' @
     ''Each chunk is sent as soon as available, without waiting for completion.\<newline>'' @
     ''The streaming paradigm revolutionizes how we deliver AI-generated content.\<newline>'' @
     ''Real-time feedback transforms user engagement and satisfaction metrics.\<newline>'' @
     ''Implementation details follow industry best practices and standards.\<newline>'' @
     ''This comprehensive solution meets all specified requirements and exceeds expectations.\<newline>'' @
     ''Production-ready streaming infrastructure for maximum reliability and scalability.''"

section \<open>JSON values and \<open>json.dumps\<close>\<close>

text \<open>
  What \<open>request.get_json()\<close> returns: \<open>None\<close> or a parsed JSON value. A \<open>float\<close> is
  modelled by a real number (the handler only tests it for zero).
\<close>

datatype json =
    JNull
  | JBool bool
  | JInt int
  | JFloat real
  | JStr string
  | JArr "json list"
  | JObj "(string \<times> json) list"

text \<open>Python truthiness (\<open>not data\<close>, \<open>not stream\<close>).\<close>

fun truthy :: "json \<Rightarrow> bool" where
  "truthy JNull = False"
| "truthy (JBool b) = b"
| "truthy (JInt i) = (i \<noteq> 0)"
| "truthy (JFloat r) = (r \<noteq> 0)"
| "truthy (JStr s) = (s \<noteq> [])"
| "truthy (JArr xs) = (xs \<noteq> [])"
| "truthy (JObj kvs) = (kvs \<noteq> [])"

text \<open>\<open>type(v).__name__\<close>, as it appears in the text of an \<open>AttributeError\<close>.\<close>

fun type_name :: "json \<Rightarrow> string" where
  "type_name JNull = ''NoneType''"
| "type_name (JBool b) = ''bool''"
| "type_name (JInt i) = ''int''"
| "type_name (JFloat r) = ''float''"
| "type_name (JStr s) = ''str''"
| "type_name (JArr xs) = ''list''"
| "type_name (JObj kvs) = ''dict''"

definition attribute_error :: "json \<Rightarrow> string \<Rightarrow> string" where
  "attribute_error v attr =
     [CHR 0x27] @ type_name v @ [CHR 0x27] @ '' object has no attribute '' @
     [CHR 0x27] @ attr @ [CHR 0x27]"

text \<open>\<open>d.get(key, default)\<close> on a dict, held as an association list.\<close>

definition dict_get :: "(string \<times> json) list \<Rightarrow> string \<Rightarrow> json \<Rightarrow> json" where
  "dict_get d key dflt = (case map_of d key of None \<Rightarrow> dflt | Some v \<Rightarrow> v)"

text \<open>
  The objects the handler serialises hold only dicts, lists, strings and ints.
  \<open>json_dumps\<close> is \<open>json.dumps\<close> with its default settings: separators \<open>", "\<close> and
  \<open>": "\<close>, and \<open>ensure_ascii\<close>, under which every character outside \<open>' '..'~'\<close> and the
  characters \<open>"\<close> and \<open>\\<close> are escaped.
\<close>

datatype pyobj =
    PStr string
  | PInt int
  | PList "pyobj list"
  | PDict "(string \<times> pyobj) list"

definition hex_digit :: "nat \<Rightarrow> char" where
  "hex_digit n = ''0123456789abcdef'' ! (n mod 16)"

definition escape_char :: "char \<Rightarrow> string" where
  \<open>escape_char c =
     (if c = CHR 0x22 then [CHR 0x5C, CHR 0x22]
      else if c = CHR 0x5C then [CHR 0x5C, CHR 0x5C]
      else if c = CHR 0x0A then [CHR 0x5C, CHR ''n'']
      else if c = CHR 0x0D then [CHR 0x5C, CHR ''r'']
      else if c = CHR 0x09 then [CHR 0x5C, CHR ''t'']
      else if c = CHR 0x08 then [CHR 0x5C, CHR ''b'']
      else if c = CHR 0x0C then [CHR 0x5C, CHR ''f'']
      else if 32 \<le> (of_char c :: nat) \<and> (of_char c :: nat) \<le> 126 then [c]
      else [CHR 0x5C, CHR ''u'', CHR ''0'', CHR ''0'',
            hex_digit ((of_char c :: nat) div 16), hex_digit (of_char c :: nat)])\<close>

definition dumps_str :: "string \<Rightarrow> string" where
  "dumps_str s = [CHR 0x22] @ concat (map escape_char s) @ [CHR 0x22]"

function str_nat :: "nat \<Rightarrow> string" where
  "str_nat n = (if n < 10 then [''0123456789'' ! n]
                else str_nat (n div 10) @ [''0123456789'' ! (n mod 10)])"
  by pat_completeness auto
termination
  by (relation "measure id") auto

declare str_nat.simps [simp del]

definition str_int :: "int \<Rightarrow> string" where
  "str_int i = (if i < 0 then ''-'' @ str_nat (nat (- i)) else str_nat (nat i))"

fun json_dumps :: "pyobj \<Rightarrow> string" where
  "json_dumps (PStr s) = dumps_str s"
| "json_dumps (PInt i) = str_int i"
| "json_dumps (PList xs) = ''['' @ str_join '', '' (map json_dumps xs) @ '']''"
| "json_dumps (PDict kvs) =
     ''{'' @ str_join '', '' (map (\<lambda>kv. dumps_str (fst kv) @ '': '' @ json_dumps (snd kv)) kvs) @ ''}''"

section \<open>The stream emitter\<close>

text \<open>
  \<open>generate\<close>, the generator inside \<open>stream_endpoint\<close>: its result is the list of frames it
  yields. The \<open>try\<close> block has an \<open>except Exception\<close> handler, so what a statement of the loop
  body may raise is part of the model: for the iteration on the chunk at position \<open>i\<close>,
  \<open>faults i\<close> says whether an exception is raised before the \<open>yield\<close> (while the payload is
  built and serialised), after it (in \<open>time.sleep\<close>), or not at all; the string is \<open>str(e)\<close>.
  The pacing delay itself is not modelled.
\<close>

datatype fault = NoFault | RaiseBeforeYield string | RaiseAfterYield string

definition delta_frame :: "string \<Rightarrow> string" where
  "delta_frame chunk =
     ''data: '' @
     json_dumps (PDict [(''choices'', PList [PDict [(''delta'', PDict [(''content'', PStr (chunk @ '' ''))])]])]) @
     ''\<newline>\<newline>''"

definition done_frame :: string where
  "done_frame = ''data: [DONE]\<newline>\<newline>''"

definition error_frame :: "string \<Rightarrow> string" where
  "error_frame e =
     ''data: '' @ json_dumps (PDict [(''error'', PStr e), (''code'', PInt 500)]) @ ''\<newline>\<newline>''"

fun generate_from :: "(nat \<Rightarrow> fault) \<Rightarrow> nat \<Rightarrow> string list \<Rightarrow> string list" where
  "generate_from faults i [] = [done_frame]"
| "generate_from faults i (chunk # rest) =
     (if str_strip chunk \<noteq> [] then
        (case faults i of
           RaiseBeforeYield e \<Rightarrow> [error_frame e]
         | RaiseAfterYield e \<Rightarrow> [delta_frame chunk, error_frame e]
         | NoFault \<Rightarrow> delta_frame chunk # generate_from faults (i + 1) rest)
      else generate_from faults (i + 1) rest)"

definition generate :: "(nat \<Rightarrow> fault) \<Rightarrow> string list \<Rightarrow> string list" where
  "generate faults chunks = generate_from faults 0 chunks"

text \<open>The stream in which no statement raises.\<close>

definition no_faults :: "nat \<Rightarrow> fault" where
  "no_faults i = NoFault"

text \<open>The stream in which the iteration on the chunk at position \<open>i\<close> raises after its \<open>yield\<close>.\<close>

definition raise_after :: "nat \<Rightarrow> string \<Rightarrow> nat \<Rightarrow> fault" where
  "raise_after i e j = (if j = i then RaiseAfterYield e else NoFault)"

section \<open>The endpoint\<close>

text \<open>
  A Flask \<open>Response\<close>: the status (200 when none is given), the content type, the headers
  passed explicitly, and the body as the list of strings written to the client (one
  string for a fixed body, the yielded frames for a generator).
\<close>

record response =
  status :: nat
  content_type :: string
  headers :: "(string \<times> string) list"
  body :: "string list"

text \<open>
  \<open>stream_endpoint\<close> of \<open>src/app.py\<close>. Its input is the outcome of \<open>request.get_json()\<close>,
  which belongs to Flask: \<open>Inl e\<close> when it raises an exception with text \<open>e\<close>, \<open>Inr data\<close>
  when it returns \<open>data\<close> (\<open>JNull\<close> for \<open>None\<close>). \<open>try_body\<close> is the body of the \<open>try\<close>
  block: \<open>Inl e\<close> is an exception raised inside it, \<open>.get\<close> on a value that is not a dict
  and \<open>.strip\<close> on a value that is not a string raise \<open>AttributeError\<close>.
\<close>

definition try_body :: "(nat \<Rightarrow> fault) \<Rightarrow> string + json \<Rightarrow> string + response" where
  \<open>try_body faults got =
     (case got of
        Inl e \<Rightarrow> Inl e
      | Inr data \<Rightarrow>
          if \<not> truthy data then
            Inr \<lparr>status = 400, content_type = ''text/event-stream'', headers = [],
                 body = [''data: {"error": "No JSON body provided", "code": 400}\<newline>\<newline>'']\<rparr>
          else
            (case data of
               JObj d \<Rightarrow>
                 (case dict_get d ''prompt'' (JStr '''') of
                    JStr s \<Rightarrow>
                      let prompt = str_strip s;
                          stream = dict_get d ''stream'' (JBool False)
                      in
                        if prompt = [] then
                          Inr \<lparr>status = 400, content_type = ''text/event-stream'', headers = [],
                               body = [''data: {"error": "Prompt cannot be empty", "code": 400}\<newline>\<newline>'']\<rparr>
                        else if length prompt > 5000 then
                          Inr \<lparr>status = 400, content_type = ''text/event-stream'', headers = [],
                               body = [''data: {"error": "Prompt exceeds maximum length", "code": 400}\<newline>\<newline>'']\<rparr>
                        else if \<not> truthy stream then
                          Inr \<lparr>status = 400, content_type = ''text/event-stream'', headers = [],
                               body = [''data: {"error": "stream parameter must be true", "code": 400}\<newline>\<newline>'']\<rparr>
                        else
                          let content = generate_streaming_content prompt;
                              chunks = chunk_text content 150
                          in Inr \<lparr>status = 200, content_type = ''text/event-stream'',
                                  headers = [(''Cache-Control'', ''no-cache''),
                                             (''X-Accel-Buffering'', ''no''),
                                             (''Connection'', ''keep-alive'')],
                                  body = generate faults chunks\<rparr>
                  | v \<Rightarrow> Inl (attribute_error v ''strip''))
             | v \<Rightarrow> Inl (attribute_error v ''get'')))\<close>

definition stream_endpoint :: "(nat \<Rightarrow> fault) \<Rightarrow> string + json \<Rightarrow> response" where
  "stream_endpoint faults got =
     (case try_body faults got of
        Inr r \<Rightarrow> r
      | Inl e \<Rightarrow>
          \<lparr>status = 500, content_type = ''text/event-stream'', headers = [],
           body = [''data: '' @
                   json_dumps (PDict [(''error'', PStr (''Server error: '' @ e)), (''code'', PInt 500)]) @
                   ''\<newline>\<newline>'']\<rparr>)"

text \<open>
  The validation errors of the specification, with the message the handler puts in the
  frame of each, and the response the specification gives a validation failure: status
  400 and a single SSE data frame carrying the message and the code 400.
\<close>

datatype validation_error = MissingBody | EmptyPrompt | PromptTooLong | StreamingRequired

fun error_message :: "validation_error \<Rightarrow> string" where
  "error_message MissingBody = ''No JSON body provided''"
| "error_message EmptyPrompt = ''Prompt cannot be empty''"
| "error_message PromptTooLong = ''Prompt exceeds maximum length''"
| "error_message StreamingRequired = ''stream parameter must be true''"

definition validation_response :: "validation_error \<Rightarrow> response" where
  \<open>validation_response e =
     \<lparr>status = 400, content_type = ''text/event-stream'', headers = [],
      body = [''data: {"error": "'' @ error_message e @ ''", "code": 400}\<newline>\<newline>'']\<rparr>\<close>

section \<open>Lemmas on the string primitives\<close>

lemma split_from_space:
  "isspace c \<Longrightarrow> split_from w (s @ c # t) = split_from w s @ split_from [] t"
  by (induction s arbitrary: w) auto

lemma split_from_all_space:
  "\<forall>c\<in>set s. isspace c \<Longrightarrow> split_from w s = (if w = [] then [] else [w])"
  by (induction s arbitrary: w) auto

lemma split_from_words:
  "\<forall>c\<in>set w. \<not> isspace c \<Longrightarrow> x \<in> set (split_from w s)
     \<Longrightarrow> x \<noteq> [] \<and> (\<forall>c\<in>set x. \<not> isspace c)"
proof (induction s arbitrary: w)
  case Nil
  then show ?case by (auto split: if_splits)
next
  case (Cons a s)
  show ?case
  proof (cases "isspace a")
    case True
    then have "x = w \<and> w \<noteq> [] \<or> x \<in> set (split_from [] s)"
      using Cons.prems(2) by (auto split: if_splits)
    then show ?thesis using Cons.prems(1) Cons.IH [of "[]"] by auto
  next
    case False
    then have "x \<in> set (split_from (w @ [a]) s)" using Cons.prems(2) by simp
    moreover have "\<forall>c\<in>set (w @ [a]). \<not> isspace c" using Cons.prems(1) False by simp
    ultimately show ?thesis using Cons.IH [of "w @ [a]"] by blast
  qed
qed

lemma str_split_words:
  "x \<in> set (str_split s) \<Longrightarrow> x \<noteq> [] \<and> (\<forall>c\<in>set x. \<not> isspace c)"
  unfolding str_split_def using split_from_words [of "[]" x s] by simp

lemma str_join_append:
  "xs \<noteq> [] \<Longrightarrow> ys \<noteq> [] \<Longrightarrow> str_join sep (xs @ ys) = str_join sep xs @ sep @ str_join sep ys"
proof (induction sep xs rule: str_join.induct)
  case (2 sep x)
  then show ?case by (cases ys) simp_all
qed simp_all

lemma str_join_groups:
  "[] \<notin> set gs \<Longrightarrow> str_join sep (map (str_join sep) gs) = str_join sep (concat gs)"
proof (induction gs)
  case (Cons g gs)
  show ?case
  proof (cases gs)
    case Nil
    then show ?thesis by simp
  next
    case (Cons h hs)
    have "concat gs \<noteq> []" using Cons.prems Cons by (cases h) auto
    moreover have "g \<noteq> []" using Cons.prems by auto
    ultimately show ?thesis using Cons.IH Cons.prems Cons
      by (simp add: str_join_append)
  qed
qed simp

lemma str_join_hd:
  "ws \<noteq> [] \<Longrightarrow> hd ws \<noteq> [] \<Longrightarrow> str_join sep ws \<noteq> [] \<and> hd (str_join sep ws) = hd (hd ws)"
  by (induction sep ws rule: str_join.induct) auto

lemma str_join_last:
  "ws \<noteq> [] \<Longrightarrow> last ws \<noteq> [] \<Longrightarrow> last (str_join sep ws) = last (last ws)"
proof (induction sep ws rule: str_join.induct)
  case (3 sep x y ys)
  have "str_join sep (y # ys) \<noteq> []"
    using 3 by (induction sep "y # ys" arbitrary: y ys rule: str_join.induct) auto
  then show ?case using 3 by simp
qed simp_all

lemma str_strip_id:
  "s \<noteq> [] \<Longrightarrow> \<not> isspace (hd s) \<Longrightarrow> \<not> isspace (last s) \<Longrightarrow> str_strip s = s"
proof -
  assume a: "s \<noteq> []" "\<not> isspace (hd s)" "\<not> isspace (last s)"
  have 1: "dropWhile isspace s = s" using a by (cases s) auto
  from a(1) obtain b l where s: "s = b @ [l]" by (cases s rule: rev_cases) auto
  then have "\<not> isspace l" using a(3) by simp
  then have 2: "dropWhile isspace (rev s) = rev s" by (simp add: s)
  show ?thesis by (simp add: str_strip_def 1 2)
qed

lemma split_from_nonempty: "w \<noteq> [] \<Longrightarrow> split_from w s \<noteq> []"
  by (induction s arbitrary: w) auto

lemma str_strip_replicate:
  assumes "\<not> isspace a" and "isspace b" and "0 < n"
  shows "str_strip (replicate n a @ [b]) = replicate n a"
proof -
  obtain m where n: "n = Suc m" using assms(3) by (cases n) auto
  have 1: "dropWhile isspace (replicate n a @ [b]) = replicate n a @ [b]"
    using assms(1) by (simp add: n)
  have 2: "rev (replicate n a @ [b]) = b # replicate n a" by simp
  have 3: "dropWhile isspace (b # replicate n a) = replicate n a"
    using assms(1,2) by (simp add: n)
  show ?thesis by (simp only: str_strip_def 1 2 3 rev_replicate)
qed

lemma concat_trailing_sep:
  "cs \<noteq> [] \<Longrightarrow> concat (map (\<lambda>c. c @ sep) cs) = str_join sep cs @ sep"
  by (induction sep cs rule: str_join.induct) simp_all

section \<open>Lemmas on the chunker loop\<close>

lemma chunk_loop_groups:
  "chunk_loop n ws (map (str_join '' '') gs, cur, len) =
     (case group_loop n ws (gs, cur, len) of
        (gs', cur', len') \<Rightarrow> (map (str_join '' '') gs', cur', len'))"
proof (induction ws arbitrary: gs cur len)
  case Nil
  show ?case by simp
next
  case (Cons w ws)
  show ?case
    using Cons [of "gs @ [cur]" "[w]" "int (length w)"]
          Cons [of gs "cur @ [w]" "len + int (length w) + 1"]
    by simp
qed

lemma chunk_text_groups:
  "chunk_text text n = map (str_join '' '') (chunk_groups text n)"
  using chunk_loop_groups [of n "str_split text" "[]" "[]" 0]
  by (auto simp: chunk_text_def chunk_groups_def split: prod.splits)

lemma group_loop_concat:
  "group_loop n ws (gs, cur, len) = (gs', cur', len')
     \<Longrightarrow> concat gs' @ cur' = concat gs @ cur @ ws"
  by (induction ws arbitrary: gs cur len) (auto split: if_splits)

lemma group_loop_nonempty:
  "group_loop n ws (gs, cur, len) = (gs', cur', len') \<Longrightarrow> [] \<notin> set gs \<Longrightarrow> [] \<notin> set gs'"
  by (induction ws arbitrary: gs cur len) (auto split: if_splits)

lemma chunk_groups_concat: "concat (chunk_groups text n) = str_split text"
proof -
  obtain gs cur len where g: "group_loop n (str_split text) ([], [], 0) = (gs, cur, len)"
    by (cases "group_loop n (str_split text) ([], [], 0)") auto
  from group_loop_concat [OF g] show ?thesis
    by (auto simp: chunk_groups_def g)
qed

lemma chunk_groups_nonempty: "[] \<notin> set (chunk_groups text n)"
proof -
  obtain gs cur len where g: "group_loop n (str_split text) ([], [], 0) = (gs, cur, len)"
    by (cases "group_loop n (str_split text) ([], [], 0)") auto
  from group_loop_nonempty [OF g] show ?thesis
    by (auto simp: chunk_groups_def g)
qed

lemma group_loop_append:
  "group_loop n (xs @ ys) st = group_loop n ys (group_loop n xs st)"
proof (induction xs arbitrary: st)
  case Nil
  show ?case by simp
next
  case (Cons x xs)
  obtain gs cur len where st: "st = (gs, cur, len)" by (cases st) auto
  show ?case unfolding st using Cons by simp
qed

lemma group_loop_closes:
  "cur \<noteq> [] \<Longrightarrow> group_loop n ws (gs, cur, len) = (gs', cur', len')
     \<Longrightarrow> length gs' = length gs + closes n len ws \<and> cur' \<noteq> []"
proof (induction ws arbitrary: gs cur len)
  case Nil
  then show ?case by simp
next
  case (Cons w ws)
  show ?case
  proof (cases "len + int (length w) > n")
    case True
    then have "group_loop n ws (gs @ [cur], [w], int (length w)) = (gs', cur', len')"
      using Cons.prems by simp
    from Cons.IH [OF _ this] show ?thesis using True by simp
  next
    case False
    then have "group_loop n ws (gs, cur @ [w], len + int (length w) + 1) = (gs', cur', len')"
      using Cons.prems by simp
    from Cons.IH [OF _ this] show ?thesis using False by simp
  qed
qed

lemma group_loop_state:
  "group_loop n ws (gs, cur, len) = (gs', cur', len') \<Longrightarrow> 0 \<le> len
     \<Longrightarrow> 0 \<le> len' \<and> (cur \<noteq> [] \<or> ws \<noteq> [] \<longrightarrow> cur' \<noteq> [])"
proof (induction ws arbitrary: gs cur len)
  case Nil
  then show ?case by simp
next
  case (Cons w ws)
  show ?case
  proof (cases "len + int (length w) > n \<and> cur \<noteq> []")
    case True
    then have "group_loop n ws (gs @ [cur], [w], int (length w)) = (gs', cur', len')"
      using Cons.prems(1) by simp
    from Cons.IH [OF this] show ?thesis by simp
  next
    case False
    then have "group_loop n ws (gs, cur @ [w], len + int (length w) + 1) = (gs', cur', len')"
      using Cons.prems(1) by (simp split: if_splits)
    from Cons.IH [OF this] Cons.prems(2) show ?thesis by simp
  qed
qed

lemma closes_lex:
  "ca < cb \<or> (ca = cb \<and> la \<le> lb) \<Longrightarrow> 0 \<le> lb
     \<Longrightarrow> ca + closes n la ws \<le> cb + closes n lb ws"
proof (induction ws arbitrary: ca la cb lb)
  case Nil
  then show ?case by auto
next
  case (Cons w ws)
  let ?k = "int (length w)"
  have k: "0 \<le> ?k" and l: "0 \<le> lb + ?k + 1" using Cons.prems(2) by simp_all
  consider (both) "la + ?k > n" "lb + ?k > n"
    | (neither) "\<not> la + ?k > n" "\<not> lb + ?k > n"
    | (a_only) "la + ?k > n" "\<not> lb + ?k > n"
    | (b_only) "\<not> la + ?k > n" "lb + ?k > n"
    by blast
  then show ?case
  proof cases
    case both
    have "Suc ca < Suc cb \<or> (Suc ca = Suc cb \<and> ?k \<le> ?k)" using Cons.prems(1) by auto
    from Cons.IH [OF this k] show ?thesis using both by simp
  next
    case neither
    have "ca < cb \<or> (ca = cb \<and> la + ?k + 1 \<le> lb + ?k + 1)" using Cons.prems(1) by auto
    from Cons.IH [OF this l] show ?thesis using neither by simp
  next
    case a_only
    then have "ca < cb" using Cons.prems(1) by auto
    then have "Suc ca < cb \<or> (Suc ca = cb \<and> ?k \<le> lb + ?k + 1)"
      using Cons.prems(2) by auto
    from Cons.IH [OF this l] show ?thesis using a_only by simp
  next
    case b_only
    have "ca < Suc cb \<or> (ca = Suc cb \<and> la + ?k + 1 \<le> ?k)" using Cons.prems(1) by auto
    from Cons.IH [OF this k] show ?thesis using b_only by simp
  qed
qed

lemma closes_mono: "la \<le> lb \<Longrightarrow> 0 \<le> lb \<Longrightarrow> closes n la ws \<le> closes n lb ws"
  using closes_lex [of 0 0 la lb n ws] by simp

lemma chunk_text_word_groups:
  assumes "c \<in> set (chunk_text text n)"
  shows "\<exists>ws. ws \<noteq> [] \<and> (\<forall>w\<in>set ws. w \<noteq> [] \<and> (\<forall>x\<in>set w. \<not> isspace x)) \<and>
              c = str_join '' '' ws"
proof -
  from assms obtain g where g: "g \<in> set (chunk_groups text n)" "c = str_join '' '' g"
    by (auto simp: chunk_text_groups)
  have "g \<noteq> []" using g(1) chunk_groups_nonempty [of "text" n] by auto
  moreover have "set g \<subseteq> set (str_split text)"
    using g(1) chunk_groups_concat [of "text" n] by (metis UN_I set_concat subsetI)
  then have "\<forall>w\<in>set g. w \<noteq> [] \<and> (\<forall>x\<in>set w. \<not> isspace x)"
    using str_split_words by blast
  ultimately show ?thesis using g(2) by blast
qed

lemma joined_words_trimmed:
  assumes "ws \<noteq> []" and "\<forall>w\<in>set ws. w \<noteq> [] \<and> (\<forall>x\<in>set w. \<not> isspace x)"
  shows "str_join sep ws \<noteq> [] \<and> \<not> isspace (hd (str_join sep ws)) \<and>
         \<not> isspace (last (str_join sep ws))"
proof -
  have h: "hd ws \<in> set ws" and l: "last ws \<in> set ws" using assms(1) by simp_all
  have "str_join sep ws \<noteq> [] \<and> hd (str_join sep ws) = hd (hd ws)"
    using str_join_hd [OF assms(1)] assms(2) h by blast
  moreover have "last (str_join sep ws) = last (last ws)"
    using str_join_last [OF assms(1)] assms(2) l by blast
  moreover have "\<not> isspace (hd (hd ws))" using assms(2) h by (metis hd_in_set)
  moreover have "\<not> isspace (last (last ws))" using assms(2) l by (metis last_in_set)
  ultimately show ?thesis by simp
qed

lemma chunk_text_trimmed:
  assumes "c \<in> set (chunk_text text n)"
  shows "c \<noteq> [] \<and> \<not> isspace (hd c) \<and> \<not> isspace (last c) \<and> str_strip c = c"
proof -
  from chunk_text_word_groups [OF assms] obtain ws where
    ws: "ws \<noteq> []" "\<forall>w\<in>set ws. w \<noteq> [] \<and> (\<forall>x\<in>set w. \<not> isspace x)" "c = str_join '' '' ws"
    by blast
  from joined_words_trimmed [OF ws(1) ws(2), of "'' ''"] ws(3)
  have t: "c \<noteq> [] \<and> \<not> isspace (hd c) \<and> \<not> isspace (last c)" by simp
  then show ?thesis using str_strip_id [of c] by simp
qed

lemma chunk_text_nonblank_all: "\<forall>c\<in>set (chunk_text s n). str_strip c \<noteq> []"
  using chunk_text_trimmed [of _ s n] by auto

lemma chunk_text_joined:
  "str_join '' '' (chunk_text s n) = str_join '' '' (str_split s)"
  using str_join_groups [OF chunk_groups_nonempty, of "'' ''" s n]
  by (simp add: chunk_text_groups chunk_groups_concat)

lemma chunk_text_nonempty: "str_split s \<noteq> [] \<Longrightarrow> chunk_text s n \<noteq> []"
  using chunk_groups_concat [of s n] by (auto simp: chunk_text_groups)

lemma content_has_words: "str_split (generate_streaming_content prompt) \<noteq> []"
  by (simp add: generate_streaming_content_def str_split_def isspace_def split_from_nonempty)

text \<open>
  What the loop does guarantee on sizes: a chunk is a single word of the text, or has at
  most \<open>chunk_size + 1\<close> characters.
\<close>

lemma str_join_snoc_length:
  "cur \<noteq> [] \<Longrightarrow>
   int (length (str_join '' '' (cur @ [w]))) = int (length (str_join '' '' cur)) + 1 + int (length w)"
  by (simp add: str_join_append)

lemma group_loop_soft_cap:
  assumes "group_loop n ws (gs, cur, len) = (gs', cur', len')"
    and "\<forall>g\<in>set gs. length g = 1 \<or> int (length (str_join '' '' g)) \<le> n + 1"
    and "cur \<noteq> [] \<longrightarrow> int (length (str_join '' '' cur)) \<le> len \<and>
           (length cur = 1 \<or> int (length (str_join '' '' cur)) \<le> n + 1)"
    and "0 \<le> len"
  shows "(\<forall>g\<in>set gs'. length g = 1 \<or> int (length (str_join '' '' g)) \<le> n + 1) \<and>
         (cur' \<noteq> [] \<longrightarrow> length cur' = 1 \<or> int (length (str_join '' '' cur')) \<le> n + 1)"
  using assms
proof (induction ws arbitrary: gs cur len)
  case Nil
  then show ?case by simp
next
  case (Cons w ws)
  show ?case
  proof (cases "len + int (length w) > n \<and> cur \<noteq> []")
    case True
    then have step: "group_loop n ws (gs @ [cur], [w], int (length w)) = (gs', cur', len')"
      using Cons.prems(1) by simp
    have a: "\<forall>g\<in>set (gs @ [cur]). length g = 1 \<or> int (length (str_join '' '' g)) \<le> n + 1"
      using Cons.prems(2,3) True by auto
    show ?thesis by (rule Cons.IH [OF step a]) simp_all
  next
    case False
    then have step: "group_loop n ws (gs, cur @ [w], len + int (length w) + 1) = (gs', cur', len')"
      using Cons.prems(1) by (simp split: if_splits)
    have b: "cur @ [w] \<noteq> [] \<longrightarrow>
             int (length (str_join '' '' (cur @ [w]))) \<le> len + int (length w) + 1 \<and>
             (length (cur @ [w]) = 1 \<or> int (length (str_join '' '' (cur @ [w]))) \<le> n + 1)"
    proof (cases "cur = []")
      case True
      then show ?thesis using Cons.prems(4) by simp
    next
      case nonempty: False
      then have "len + int (length w) \<le> n" using False by simp
      then show ?thesis
        using Cons.prems(3) nonempty str_join_snoc_length [OF nonempty, of w] by simp
    qed
    show ?thesis by (rule Cons.IH [OF step Cons.prems(2) b]) (use Cons.prems(4) in simp)
  qed
qed

lemma chunk_text_soft_cap:
  assumes "c \<in> set (chunk_text s n)"
  shows "c \<in> set (str_split s) \<or> int (length c) \<le> n + 1"
proof -
  from assms obtain g where g: "g \<in> set (chunk_groups s n)" "c = str_join '' '' g"
    by (auto simp: chunk_text_groups)
  obtain gs cur len where l: "group_loop n (str_split s) ([], [], 0) = (gs, cur, len)"
    by (cases "group_loop n (str_split s) ([], [], 0)") auto
  from group_loop_soft_cap [OF l] have
    inv: "(\<forall>g\<in>set gs. length g = 1 \<or> int (length (str_join '' '' g)) \<le> n + 1) \<and>
          (cur \<noteq> [] \<longrightarrow> length cur = 1 \<or> int (length (str_join '' '' cur)) \<le> n + 1)"
    by simp
  have "g \<in> set gs \<or> (cur \<noteq> [] \<and> g = cur)"
    using g(1) by (auto simp: chunk_groups_def l split: if_splits)
  then have "length g = 1 \<or> int (length (str_join '' '' g)) \<le> n + 1" using inv by blast
  then show ?thesis
  proof
    assume "length g = 1"
    then obtain w where w: "g = [w]" by (cases g) auto
    have "set g \<subseteq> set (str_split s)"
      using g(1) chunk_groups_concat [of s n] by (metis UN_I set_concat subsetI)
    then show ?thesis using w g(2) by simp
  next
    assume "int (length (str_join '' '' g)) \<le> n + 1"
    then show ?thesis using g(2) by simp
  qed
qed

section \<open>Lemmas on the synthesized content\<close>

lemma content_split:
  "generate_streaming_content prompt =
     ''Based on your prompt'' @ CHR '' '' # ([CHR 0x27] @ prompt @ [CHR 0x27, CHR '','']) @
     CHR '' '' # content_tail"
  by (simp add: generate_streaming_content_def content_tail_def)

lemma tail_closes: "closes 150 0 (str_split content_tail) = 8"
  by code_simp

lemma content_words:
  "str_split (generate_streaming_content prompt) =
     str_split ''Based on your prompt'' @
     str_split ([CHR 0x27] @ prompt @ [CHR 0x27, CHR '','']) @
     str_split content_tail"
proof -
  have sp: "isspace (CHR '' '')" by (simp add: isspace_def)
  show ?thesis
    unfolding content_split str_split_def
    by (simp only: split_from_space [OF sp])
qed

lemma at_least_nine_chunks:
  "9 \<le> length (chunk_text (generate_streaming_content prompt) 150)"
proof -
  let ?head = "str_split ''Based on your prompt'' @
               str_split ([CHR 0x27] @ prompt @ [CHR 0x27, CHR '',''])"
  obtain gs cur len where mid: "group_loop 150 ?head ([], [], 0) = (gs, cur, len)"
    by (cases "group_loop 150 ?head ([], [], 0)") auto
  have "?head \<noteq> []" by (simp add: str_split_def isspace_def)
  with group_loop_state [OF mid] have len: "0 \<le> len" and cur: "cur \<noteq> []" by simp_all
  obtain gs' cur' len' where
    fin: "group_loop 150 (str_split content_tail) (gs, cur, len) = (gs', cur', len')"
    by (cases "group_loop 150 (str_split content_tail) (gs, cur, len)") auto
  from group_loop_closes [OF cur fin]
  have g: "length gs' = length gs + closes 150 len (str_split content_tail)" and c: "cur' \<noteq> []"
    by simp_all
  have "8 \<le> closes 150 len (str_split content_tail)"
    using closes_mono [OF len len, of 150 "str_split content_tail"] tail_closes by simp
  then have "9 \<le> length (gs' @ [cur'])" using g by simp
  moreover have "chunk_groups (generate_streaming_content prompt) 150 = gs' @ [cur']"
    unfolding chunk_groups_def content_words
    using group_loop_append [of 150 ?head "str_split content_tail" "([], [], 0)"] mid fin c
    by (simp only: append_assoc [symmetric]) simp
  ultimately show ?thesis by (simp add: chunk_text_groups)
qed

section \<open>Lemmas on the emitter\<close>

lemma generate_from_no_fault:
  "\<forall>c\<in>set chunks. str_strip c \<noteq> [] \<Longrightarrow> \<forall>i. faults i = NoFault
     \<Longrightarrow> generate_from faults i chunks = map delta_frame chunks @ [done_frame]"
  by (induction chunks arbitrary: i) simp_all

lemma str_int_500: "str_int 500 = ''500''"
  by (simp add: str_int_def str_nat.simps)

lemma delta_frame_text:
  \<open>delta_frame c = ''data: {"choices": [{"delta": {"content": '' @ dumps_str (c @ '' '') @ ''}}]}\<newline>\<newline>''\<close>
  by (simp add: delta_frame_def dumps_str_def escape_char_def)

lemma error_frame_text:
  \<open>error_frame e = ''data: {"error": '' @ dumps_str e @ '', "code": 500}\<newline>\<newline>''\<close>
  by (simp add: error_frame_def dumps_str_def escape_char_def str_int_500)

lemma frames_distinct:
  "delta_frame c \<noteq> done_frame \<and> delta_frame c \<noteq> error_frame e \<and> done_frame \<noteq> error_frame e"
  by (simp add: delta_frame_text error_frame_text done_frame_def)

lemma generate_from_shape:
  assumes "\<forall>c\<in>set chunks. str_strip c \<noteq> []"
  shows "\<exists>k t. k \<le> length chunks \<and>
           generate_from faults i chunks = map delta_frame (take k chunks) @ [t] \<and>
           (if \<forall>j<length chunks. faults (i + j) = NoFault
            then t = done_frame \<and> k = length chunks
            else \<exists>e. t = error_frame e)"
  using assms
proof (induction chunks arbitrary: i)
  case Nil
  show ?case by simp
next
  case (Cons c cs)
  have nb: "str_strip c \<noteq> []" and rest: "\<forall>c\<in>set cs. str_strip c \<noteq> []"
    using Cons.prems by simp_all
  show ?case
  proof (cases "faults i")
    case NoFault
    from Cons.IH [OF rest, of "i + 1"] obtain k t where
      kt: "k \<le> length cs"
          "generate_from faults (i + 1) cs = map delta_frame (take k cs) @ [t]"
          "if \<forall>j<length cs. faults (i + 1 + j) = NoFault
           then t = done_frame \<and> k = length cs else \<exists>e. t = error_frame e"
      by blast
    have all: "(\<forall>j<length (c # cs). faults (i + j) = NoFault) =
               (\<forall>j<length cs. faults (i + 1 + j) = NoFault)"
      using NoFault by (simp add: All_less_Suc2)
    have "Suc k \<le> length (c # cs)" using kt(1) by simp
    moreover have "generate_from faults i (c # cs) =
                   map delta_frame (take (Suc k) (c # cs)) @ [t]"
      using nb NoFault kt(2) by simp
    moreover have "if \<forall>j<length (c # cs). faults (i + j) = NoFault
                   then t = done_frame \<and> Suc k = length (c # cs)
                   else \<exists>e. t = error_frame e"
      using kt(3) unfolding all by (simp split: if_splits)
    ultimately show ?thesis by blast
  next
    case (RaiseBeforeYield e)
    have "\<not> (\<forall>j<length (c # cs). faults (i + j) = NoFault)"
      using RaiseBeforeYield by (auto intro: exI [of _ 0])
    moreover have "generate_from faults i (c # cs) =
                   map delta_frame (take 0 (c # cs)) @ [error_frame e]"
      using nb RaiseBeforeYield by simp
    ultimately show ?thesis by (metis le0)
  next
    case (RaiseAfterYield e)
    have "\<not> (\<forall>j<length (c # cs). faults (i + j) = NoFault)"
      using RaiseAfterYield by (auto intro: exI [of _ 0])
    moreover have "generate_from faults i (c # cs) =
                   map delta_frame (take (Suc 0) (c # cs)) @ [error_frame e]"
      using nb RaiseAfterYield by simp
    moreover have "Suc 0 \<le> length (c # cs)" by simp
    ultimately show ?thesis by metis
  qed
qed

lemma generate_from_first_fault:
  assumes "\<forall>c\<in>set chunks. str_strip c \<noteq> []" and "i < length chunks"
    and "\<forall>j<i. faults (b + j) = NoFault"
  shows "(faults (b + i) = RaiseBeforeYield e \<longrightarrow>
            generate_from faults b chunks = map delta_frame (take i chunks) @ [error_frame e]) \<and>
         (faults (b + i) = RaiseAfterYield e \<longrightarrow>
            generate_from faults b chunks =
              map delta_frame (take (Suc i) chunks) @ [error_frame e])"
  using assms
proof (induction chunks arbitrary: i b)
  case Nil
  then show ?case by simp
next
  case (Cons c cs)
  have nb: "str_strip c \<noteq> []" and rest: "\<forall>c\<in>set cs. str_strip c \<noteq> []"
    using Cons.prems(1) by simp_all
  show ?case
  proof (cases i)
    case 0
    then show ?thesis using nb by simp
  next
    case (Suc i')
    have f0: "faults b = NoFault" using Cons.prems(3) [rule_format, of 0] Suc by simp
    have i': "i' < length cs" using Cons.prems(2) Suc by simp
    have pre: "\<forall>j<i'. faults (b + 1 + j) = NoFault"
      using Cons.prems(3) Suc by (metis Suc_less_eq add_Suc_right add_Suc_shift plus_1_eq_Suc add.commute)
    from Cons.IH [OF rest i' pre] show ?thesis using nb f0 Suc by simp
  qed
qed

lemma validation_frame_not_delta:
  \<open>''data: {"error": "'' @ msg @ ''", "code": 400}\<newline>\<newline>'' \<noteq> delta_frame c\<close>
  by (simp add: delta_frame_text)

section \<open>Lemmas on the endpoint\<close>

lemma valid_request_response:
  assumes "dict_get d ''prompt'' (JStr []) = JStr s" and "str_strip s \<noteq> []"
    and "length (str_strip s) \<le> 5000" and "truthy (dict_get d ''stream'' (JBool False))"
  shows "stream_endpoint faults (Inr (JObj d)) =
           \<lparr>status = 200, content_type = ''text/event-stream'',
            headers = [(''Cache-Control'', ''no-cache''), (''X-Accel-Buffering'', ''no''),
                       (''Connection'', ''keep-alive'')],
            body = generate faults (chunk_text (generate_streaming_content (str_strip s)) 150)\<rparr>"
proof -
  have "d \<noteq> []" using assms(4) by (cases d) (simp_all add: dict_get_def)
  then show ?thesis using assms
    by (simp add: stream_endpoint_def try_body_def Let_def)
qed

lemma endpoint_rejects_falsy:
  "\<not> truthy data \<Longrightarrow> stream_endpoint faults (Inr data) = validation_response MissingBody"
  by (simp add: stream_endpoint_def try_body_def validation_response_def)

lemma endpoint_on_string_prompt:
  "d \<noteq> [] \<Longrightarrow> dict_get d ''prompt'' (JStr []) = JStr s \<Longrightarrow>
   stream_endpoint faults (Inr (JObj d)) =
     (if str_strip s = [] then validation_response EmptyPrompt
      else if length (str_strip s) > 5000 then validation_response PromptTooLong
      else if \<not> truthy (dict_get d ''stream'' (JBool False))
        then validation_response StreamingRequired
      else \<lparr>status = 200, content_type = ''text/event-stream'',
            headers = [(''Cache-Control'', ''no-cache''), (''X-Accel-Buffering'', ''no''),
                       (''Connection'', ''keep-alive'')],
            body = generate faults
                     (chunk_text (generate_streaming_content (str_strip s)) 150)\<rparr>)"
  by (simp add: stream_endpoint_def try_body_def validation_response_def Let_def)

lemma endpoint_status_of_exception:
  "try_body faults got = Inl e \<Longrightarrow> status (stream_endpoint faults got) = 500"
  by (simp add: stream_endpoint_def)

lemma endpoint_on_other_prompt:
  assumes "d \<noteq> []" and "\<forall>s. dict_get d ''prompt'' (JStr []) \<noteq> JStr s"
  shows "status (stream_endpoint faults (Inr (JObj d))) = 500"
proof -
  have "try_body faults (Inr (JObj d)) =
          Inl (attribute_error (dict_get d ''prompt'' (JStr [])) ''strip'')"
    using assms by (cases "dict_get d ''prompt'' (JStr [])") (simp_all add: try_body_def)
  then show ?thesis by (rule endpoint_status_of_exception)
qed

lemma endpoint_on_non_object:
  assumes "truthy data" and "\<forall>d. data \<noteq> JObj d"
  shows "status (stream_endpoint faults (Inr data)) = 500"
proof -
  have "try_body faults (Inr data) = Inl (attribute_error data ''get'')"
    using assms by (cases data) (simp_all add: try_body_def)
  then show ?thesis by (rule endpoint_status_of_exception)
qed

lemma validation_response_framing:
  \<open>status (validation_response e) = 400 \<and>
   content_type (validation_response e) = ''text/event-stream'' \<and>
   body (validation_response e) =
     [''data: {"error": "'' @ error_message e @ ''", "code": 400}\<newline>\<newline>''] \<and>
   (\<forall>c. delta_frame c \<notin> set (body (validation_response e)))\<close>
  using validation_frame_not_delta [of "error_message e"]
  by (simp add: validation_response_def) metis

section \<open>The claims on the chunker\<close>

text \<open>
  C3 (chunker round-trip). For every text and every chunk size, joining the chunks of
  \<open>chunk_text\<close> with single spaces gives the words of the text joined with single spaces,
  that is \<open>" ".join(text.split())\<close>; and a text made of whitespace only, the empty text
  included, has no chunk.
\<close>

theorem chunk_text_roundtrip:
  "str_join '' '' (chunk_text text n) = str_join '' '' (str_split text) \<and>
   ((\<forall>c\<in>set text. isspace c) \<longrightarrow> chunk_text text n = [])"
proof
  show "str_join '' '' (chunk_text text n) = str_join '' '' (str_split text)"
    using str_join_groups [OF chunk_groups_nonempty, of "'' ''" "text" n]
    by (simp add: chunk_text_groups chunk_groups_concat)
next
  show "(\<forall>c\<in>set text. isspace c) \<longrightarrow> chunk_text text n = []"
  proof
    assume "\<forall>c\<in>set text. isspace c"
    then have "str_split text = []"
      using split_from_all_space [of "text" "[]"] by (simp add: str_split_def)
    then show "chunk_text text n = []" by (simp add: chunk_text_def)
  qed
qed

theorem chunk_text_roundtrip_witness:
  "list_all isspace '' \<newline> '' \<and> chunk_text '' \<newline> '' 150 = [] \<and>
   str_join '' '' (chunk_text '' \<newline> '' 150) = str_join '' '' (str_split '' \<newline> '')"
proof -
  have h: "\<forall>c\<in>set '' \<newline> ''. isspace c" by (simp add: isspace_def)
  then have "list_all isspace '' \<newline> ''" by (simp only: list_all_iff)
  then show ?thesis using h chunk_text_roundtrip [of "'' \<newline> ''" 150] by blast
qed

text \<open>
  C9 (implicit chunk invariant). For every text and every chunk size, each chunk of
  \<open>chunk_text\<close> is the single-space join of one or more non-empty words free of
  whitespace; it is non-empty, neither starts nor ends with whitespace, and \<open>strip\<close>
  leaves it unchanged. So the emitter's guard \<open>if chunk.strip()\<close> skips no chunk, and a
  stream with no fault has exactly one delta frame for each chunk, before the sentinel.
\<close>

theorem chunk_text_chunks_nonblank:
  "(\<forall>c\<in>set (chunk_text text n).
      c \<noteq> [] \<and> \<not> isspace (hd c) \<and> \<not> isspace (last c) \<and> str_strip c = c \<and>
      (\<exists>ws. ws \<noteq> [] \<and> (\<forall>w\<in>set ws. w \<noteq> [] \<and> (\<forall>x\<in>set w. \<not> isspace x)) \<and>
            c = str_join '' '' ws)) \<and>
   filter (\<lambda>c. str_strip c \<noteq> []) (chunk_text text n) = chunk_text text n \<and>
   generate (\<lambda>i. NoFault) (chunk_text text n) =
     map delta_frame (chunk_text text n) @ [done_frame]"
proof -
  have a: "\<forall>c\<in>set (chunk_text text n). str_strip c \<noteq> []"
    using chunk_text_trimmed [of _ "text" n] by auto
  have "\<forall>c\<in>set (chunk_text text n).
      c \<noteq> [] \<and> \<not> isspace (hd c) \<and> \<not> isspace (last c) \<and> str_strip c = c \<and>
      (\<exists>ws. ws \<noteq> [] \<and> (\<forall>w\<in>set ws. w \<noteq> [] \<and> (\<forall>x\<in>set w. \<not> isspace x)) \<and>
            c = str_join '' '' ws)"
    using chunk_text_trimmed [of _ "text" n] chunk_text_word_groups [of _ "text" n] by blast
  moreover have "filter (\<lambda>c. str_strip c \<noteq> []) (chunk_text text n) = chunk_text text n"
    using a by simp
  moreover have "generate (\<lambda>i. NoFault) (chunk_text text n) =
     map delta_frame (chunk_text text n) @ [done_frame]"
    unfolding generate_def using generate_from_no_fault [OF a, of "\<lambda>i. NoFault" 0] by simp
  ultimately show ?thesis by blast
qed

theorem chunk_text_chunks_nonblank_witness:
  "chunk_text ''to be  or not'' 5 = [''to be'', ''or not''] \<and>
   list_all (\<lambda>c. c \<noteq> [] \<and> \<not> isspace (hd c) \<and> \<not> isspace (last c) \<and> str_strip c = c)
     [''to be'', ''or not''] \<and>
   generate (\<lambda>i. NoFault) [''to be'', ''or not''] =
     map delta_frame [''to be'', ''or not''] @ [done_frame]"
proof -
  have e: "chunk_text ''to be  or not'' 5 = [''to be'', ''or not'']"
    by (simp add: chunk_text_def str_split_def isspace_def)
  have "(\<forall>c\<in>set [''to be'', ''or not''].
           c \<noteq> [] \<and> \<not> isspace (hd c) \<and> \<not> isspace (last c) \<and> str_strip c = c) \<and>
        generate (\<lambda>i. NoFault) [''to be'', ''or not''] =
          map delta_frame [''to be'', ''or not''] @ [done_frame]"
    using chunk_text_chunks_nonblank [of "''to be  or not''" 5] unfolding e by blast
  then show ?thesis using e by (simp only: list_all_iff) blast
qed

text \<open>
  C2 (chunker boundary). The claim: for a chunk size \<open>N \<ge> 1\<close> a chunk is longer than \<open>N\<close>
  only if it is a single word longer than \<open>N\<close>. The code: when a chunk is closed, the word
  that starts the next one is counted without its separator
  (\<open>current_length = len(word)\<close>, where the other branch adds \<open>len(word) + 1\<close>), so a chunk
  after the first can reach \<open>N + 1\<close> characters with several words. At chunk size 3 the
  text \<open>aaaa b cc\<close> gives the chunk \<open>b cc\<close>: two words, four characters.
\<close>

theorem chunk_text_exceeds_cap:
  "chunk_text ''aaaa b cc'' 3 = [''aaaa'', ''b cc''] \<and>
   length ''b cc'' = 4 \<and> str_split ''b cc'' = [''b'', ''cc'']"
  by (simp add: chunk_text_def str_split_def isspace_def)

text \<open>
  C4 (refinement of the reference algorithm). The claim: \<open>chunk_text\<close> is the
  specification's greedy algorithm. The code's \<open>current_length\<close> is not a measure of the
  current chunk: it counts a separator for every word of the first chunk and for all but
  the first word of a later chunk. Under either reading of \<open>current_length\<close> the code
  differs from the reference algorithm: counting separators, at \<open>aaaa b cc\<close> and size 3;
  counting the length of the chunk's text, at \<open>a bb\<close> and size 3.
\<close>

theorem chunk_text_differs_from_reference:
  "chunk_text ''aaaa b cc'' 3 = [''aaaa'', ''b cc''] \<and>
   spec_chunk len_with_sep ''aaaa b cc'' 3 = [''aaaa'', ''b'', ''cc''] \<and>
   chunk_text ''a bb'' 3 = [''a'', ''bb''] \<and>
   spec_chunk len_joined ''a bb'' 3 = [''a bb'']"
  by (simp add: chunk_text_def spec_chunk_def str_split_def isspace_def
        len_with_sep_def len_joined_def)

text \<open>
  More generally, whatever the measure of the current chunk, the reference algorithm is
  not the code: the chunk \<open>a\<close> followed by the word \<open>bb\<close> is closed at size 3 when it is
  the first chunk and extended when it is a later one.
\<close>

lemma no_measure_matches_code:
  "\<not> (\<forall>t n. chunk_text t n = spec_chunk m t n)"
proof
  assume a: "\<forall>t n. chunk_text t n = spec_chunk m t n"
  have c1: "chunk_text ''a bb'' 3 = [''a'', ''bb'']"
    and c2: "chunk_text ''aaaa a bb'' 3 = [''aaaa'', ''a bb'']"
    by (simp_all add: chunk_text_def str_split_def isspace_def)
  have w1: "str_split ''a bb'' = [''a'', ''bb'']"
    and w2: "str_split ''aaaa a bb'' = [''aaaa'', ''a'', ''bb'']"
    by (simp_all add: str_split_def isspace_def)
  from a c1 have s1: "spec_chunk m ''a bb'' 3 = [''a'', ''bb'']" by metis
  from a c2 have s2: "spec_chunk m ''aaaa a bb'' 3 = [''aaaa'', ''a bb'']" by metis
  from s1 have "\<not> m [''a''] + 2 \<le> 3"
    by (auto simp: spec_chunk_def w1 split: if_splits)
  moreover from s2 have "m [''a''] + 2 \<le> 3"
    by (auto simp: spec_chunk_def w2 split: if_splits)
  ultimately show False by simp
qed

text \<open>
  C1 (calibration). The claim: for every prompt of 1 to 5000 characters the chunks of the
  synthesized content, at chunk size 150, are at least 6 and their lengths sum to more
  than 1375. The service description of \<open>src/app.py\<close> advertises the same figures
  (\<open>6+ content chunks\<close>, \<open>>1375 characters output\<close>). The template of \<open>src/app.py\<close> is
  too short for the second one: for the prompt of the repository's own test clients,
  \<open>Explain streaming APIs\<close>, it yields 9 chunks whose lengths sum to 1235. The first
  figure holds: every prompt yields at least 9 chunks (lemma \<open>at_least_nine_chunks\<close>).
\<close>

theorem calibration_fails_on_test_prompt:
  "length (chunk_text (generate_streaming_content ''Explain streaming APIs'') 150) = 9 \<and>
   sum_list (map length (chunk_text (generate_streaming_content ''Explain streaming APIs'') 150)) = 1235"
proof -
  have m: "map length (chunk_text (generate_streaming_content ''Explain streaming APIs'') 150) =
           [147, 147, 151, 143, 147, 140, 146, 149, 65]"
    by code_simp
  have l: "length (chunk_text (generate_streaming_content ''Explain streaming APIs'') 150) = 9"
    using arg_cong [OF m, of length] by simp
  show ?thesis using l by (simp add: m)
qed

section \<open>The claims on the endpoint\<close>

text \<open>
  C5 (validator error mapping), amended. For every request body that \<open>request.get_json()\<close>
  returns, the handler applies its tests in this order and the first that fails decides
  the response. MissingBody when the body is \<open>None\<close> or another falsy value, such as
  \<open>{}\<close>. For a JSON object whose prompt is absent (taken as the empty string) or a
  string: EmptyPrompt when the prompt, after trimming, is empty; PromptTooLong when the
  prompt, after trimming, is longer than 5000 characters; StreamingRequired when stream is
  absent or falsy; and such a body that fails none of the tests passes validation, with
  status 200 and the stream. A truthy body that is not an object, or whose prompt is not
  a string, reaches no validation error and is answered with status 500.
\<close>

theorem validator_error_mapping:
  "(\<not> truthy data \<longrightarrow> stream_endpoint faults (Inr data) = validation_response MissingBody) \<and>
   (d \<noteq> [] \<and> dict_get d ''prompt'' (JStr []) = JStr s \<longrightarrow>
      stream_endpoint faults (Inr (JObj d)) =
        (if str_strip s = [] then validation_response EmptyPrompt
         else if length (str_strip s) > 5000 then validation_response PromptTooLong
         else if \<not> truthy (dict_get d ''stream'' (JBool False))
           then validation_response StreamingRequired
         else \<lparr>status = 200, content_type = ''text/event-stream'',
               headers = [(''Cache-Control'', ''no-cache''), (''X-Accel-Buffering'', ''no''),
                          (''Connection'', ''keep-alive'')],
               body = generate faults
                        (chunk_text (generate_streaming_content (str_strip s)) 150)\<rparr>)) \<and>
   (d' \<noteq> [] \<and> (\<forall>s. dict_get d' ''prompt'' (JStr []) \<noteq> JStr s) \<longrightarrow>
      status (stream_endpoint faults (Inr (JObj d'))) = 500) \<and>
   (truthy data' \<and> (\<forall>d. data' \<noteq> JObj d) \<longrightarrow>
      status (stream_endpoint faults (Inr data')) = 500)"
  using endpoint_rejects_falsy [of data faults] endpoint_on_string_prompt [of d s faults]
    endpoint_on_other_prompt [of d' faults] endpoint_on_non_object [of data' faults]
  by blast

theorem validator_error_mapping_witness:
  "truthy JNull = False \<and>
   stream_endpoint no_faults (Inr JNull) = validation_response MissingBody \<and>
   dict_get [(''prompt'', JStr '' ''), (''stream'', JBool True)] ''prompt'' (JStr []) = JStr '' '' \<and>
   stream_endpoint no_faults (Inr (JObj [(''prompt'', JStr '' ''), (''stream'', JBool True)])) =
     validation_response EmptyPrompt \<and>
   dict_get [(''prompt'', JInt 5)] ''prompt'' (JStr []) = JInt 5 \<and>
   status (stream_endpoint no_faults (Inr (JObj [(''prompt'', JInt 5)]))) = 500 \<and>
   truthy (JArr [JInt 1]) \<and>
   status (stream_endpoint no_faults (Inr (JArr [JInt 1]))) = 500"
proof -
  have a: "\<not> truthy JNull" by simp
  have b: "[(''prompt'', JStr '' ''), (''stream'', JBool True)] \<noteq> [] \<and>
           dict_get [(''prompt'', JStr '' ''), (''stream'', JBool True)] ''prompt'' (JStr []) = JStr '' ''"
    by (simp add: dict_get_def)
  have c: "str_strip '' '' = []" by (simp add: str_strip_def isspace_def)
  have d: "dict_get [(''prompt'', JInt 5)] ''prompt'' (JStr []) = JInt 5"
    by (simp add: dict_get_def)
  have d': "[(''prompt'', JInt 5)] \<noteq> [] \<and>
            (\<forall>s. dict_get [(''prompt'', JInt 5)] ''prompt'' (JStr []) \<noteq> JStr s)"
    by (simp add: d)
  have e: "truthy (JArr [JInt 1]) \<and> (\<forall>d. JArr [JInt 1] \<noteq> JObj d)" by simp
  show ?thesis
    using a b c d d' e
      validator_error_mapping [of JNull no_faults
        "[(''prompt'', JStr '' ''), (''stream'', JBool True)]" "'' ''"
        "[(''prompt'', JInt 5)]" "JArr [JInt 1]"]
    by simp
qed

text \<open>
  The claim as stated fails: it asks PromptTooLong for every prompt of 5001 characters,
  and the handler measures the prompt after trimming it. A prompt of 5000 letters and one
  trailing space has 5001 characters and is accepted.
\<close>

theorem prompt_of_length_5001_accepted:
  "length (replicate 5000 (CHR ''a'') @ '' '') = 5001 \<and>
   status (stream_endpoint no_faults
             (Inr (JObj [(''prompt'', JStr (replicate 5000 (CHR ''a'') @ '' '')),
                         (''stream'', JBool True)]))) = 200"
proof -
  have s: "str_strip (replicate 5000 (CHR ''a'') @ '' '') = replicate 5000 (CHR ''a'')"
    using str_strip_replicate [of "CHR ''a''" "CHR '' ''" 5000] by (simp add: isspace_def)
  have "replicate 5000 (CHR ''a'') \<noteq> []" by simp
  then show ?thesis
    by (simp add: stream_endpoint_def try_body_def Let_def dict_get_def s)
qed

text \<open>
  The amended claim says nothing of a request for which \<open>get_json\<close> raises, as it does
  on a body that is not parseable JSON. The handler then never reaches the test of lines
  66-71 that answers \<open>No JSON body provided\<close>: its \<open>except\<close> clause answers with status
  500.
\<close>

lemma unparseable_body_answered_500:
  "status (stream_endpoint faults (Inl e)) = 500 \<and>
   stream_endpoint faults (Inl e) \<noteq> validation_response MissingBody"
  by (simp add: stream_endpoint_def try_body_def validation_response_def)

text \<open>
  C6 (validation failure framing), amended. Every request that fails one of the four
  tests of the handler, taken in order on the body that \<open>get_json\<close> returns (the body is
  falsy; or it is a JSON object whose prompt is absent or a string, and the trimmed prompt
  is empty, or is longer than 5000 characters, or stream is absent or falsy), is answered
  with status 400, content type \<open>text/event-stream\<close> and a body of exactly one frame
  \<open>data: {"error": <message>, "code": 400}\n\n\<close>, where the message is that of one of the
  four validation errors; the body holds no delta frame.
\<close>

theorem validation_failure_framing:
  assumes "\<not> truthy data \<or>
           (\<exists>d s. data = JObj d \<and> dict_get d ''prompt'' (JStr []) = JStr s \<and>
                  (str_strip s = [] \<or> length (str_strip s) > 5000 \<or>
                   \<not> truthy (dict_get d ''stream'' (JBool False))))"
  shows \<open>\<exists>e. status (stream_endpoint faults (Inr data)) = 400 \<and>
             content_type (stream_endpoint faults (Inr data)) = ''text/event-stream'' \<and>
             body (stream_endpoint faults (Inr data)) =
               [''data: {"error": "'' @ error_message e @ ''", "code": 400}\<newline>\<newline>''] \<and>
             (\<forall>c. delta_frame c \<notin> set (body (stream_endpoint faults (Inr data))))\<close>
proof -
  have "\<exists>e. stream_endpoint faults (Inr data) = validation_response e"
  proof (cases "truthy data")
    case False
    then show ?thesis using endpoint_rejects_falsy by blast
  next
    case True
    with assms obtain d s where
      ds: "data = JObj d" "dict_get d ''prompt'' (JStr []) = JStr s"
          "str_strip s = [] \<or> length (str_strip s) > 5000 \<or>
           \<not> truthy (dict_get d ''stream'' (JBool False))"
      by blast
    have "d \<noteq> []" using True ds(1) by simp
    from endpoint_on_string_prompt [OF this ds(2), of faults] ds(3)
    show ?thesis unfolding ds(1) by (auto split: if_splits)
  qed
  then obtain e where "stream_endpoint faults (Inr data) = validation_response e" ..
  then show ?thesis using validation_response_framing [of e] by metis
qed

theorem validation_failure_framing_witness:
  \<open>truthy (JObj []) = False \<and>
   status (stream_endpoint no_faults (Inr (JObj []))) = 400 \<and>
   content_type (stream_endpoint no_faults (Inr (JObj []))) = ''text/event-stream'' \<and>
   body (stream_endpoint no_faults (Inr (JObj []))) =
     [''data: {"error": "No JSON body provided", "code": 400}\<newline>\<newline>'']\<close>
proof -
  have h: "\<not> truthy (JObj [])" by simp
  have b: \<open>body (stream_endpoint no_faults (Inr (JObj []))) =
     [''data: {"error": "No JSON body provided", "code": 400}\<newline>\<newline>'']\<close>
    by (simp add: stream_endpoint_def try_body_def)
  from validation_failure_framing [of "JObj []" no_faults] h
  have "status (stream_endpoint no_faults (Inr (JObj []))) = 400 \<and>
        content_type (stream_endpoint no_faults (Inr (JObj []))) = ''text/event-stream''"
    by blast
  then show ?thesis using h b by simp
qed

text \<open>
  The claim as stated, for every invalid request, fails: a request with stream false is
  invalid, and when its prompt is a number the handler raises on \<open>.strip()\<close> before it
  tests the stream, and answers with status 500.
\<close>

theorem stream_false_with_number_prompt_answered_500:
  "truthy (dict_get [(''prompt'', JInt 5), (''stream'', JBool False)] ''stream'' (JBool False)) = False \<and>
   status (stream_endpoint no_faults
             (Inr (JObj [(''prompt'', JInt 5), (''stream'', JBool False)]))) = 500"
  by (simp add: stream_endpoint_def try_body_def dict_get_def)

text \<open>
  C7 (stream termination). For every valid request the response has status 200 and its
  body is the delta frames of the first \<open>k\<close> chunks, in chunk order, followed by exactly
  one more frame \<open>t\<close>, which is no delta frame. When no statement of the loop raises, \<open>t\<close>
  is the sentinel \<open>data: [DONE]\n\n\<close> and it follows the frames of all chunks. When the
  first exception is raised in the iteration on chunk \<open>i\<close>, \<open>t\<close> is the frame
  \<open>data: {"error": <message>, "code": 500}\n\n\<close>, the \<open>json.dumps\<close> of the object with
  the text of the exception and the code 500, and it follows the frames of the chunks
  before \<open>i\<close>, and that of chunk \<open>i\<close> when the exception comes after its \<open>yield\<close>. The
  sentinel is not an error frame and a delta frame is neither, so the body has one
  terminal frame and it is the last.
\<close>

theorem stream_terminates_once:
  assumes "dict_get d ''prompt'' (JStr []) = JStr s" and "str_strip s \<noteq> []"
    and "length (str_strip s) \<le> 5000" and "truthy (dict_get d ''stream'' (JBool False))"
    and "chunks = chunk_text (generate_streaming_content (str_strip s)) 150"
  shows \<open>status (stream_endpoint faults (Inr (JObj d))) = 200 \<and>
         (\<exists>k t. k \<le> length chunks \<and>
            body (stream_endpoint faults (Inr (JObj d))) =
              map (\<lambda>c. ''data: {"choices": [{"delta": {"content": '' @ dumps_str (c @ '' '') @ ''}}]}\<newline>\<newline>'') (take k chunks) @ [t] \<and>
            (if \<forall>j<length chunks. faults j = NoFault
             then t = ''data: [DONE]\<newline>\<newline>'' \<and> k = length chunks
             else \<exists>e. t = ''data: {"error": '' @ dumps_str e @ '', "code": 500}\<newline>\<newline>'') \<and>
            (\<forall>c. t \<noteq> ''data: {"choices": [{"delta": {"content": '' @ dumps_str (c @ '' '') @ ''}}]}\<newline>\<newline>'')) \<and>
         (\<forall>i e. i < length chunks \<and> (\<forall>j<i. faults j = NoFault) \<and>
                faults i = RaiseBeforeYield e \<longrightarrow>
            body (stream_endpoint faults (Inr (JObj d))) =
              map (\<lambda>c. ''data: {"choices": [{"delta": {"content": '' @ dumps_str (c @ '' '') @ ''}}]}\<newline>\<newline>'') (take i chunks) @ [''data: {"error": '' @ dumps_str e @ '', "code": 500}\<newline>\<newline>'']) \<and>
         (\<forall>i e. i < length chunks \<and> (\<forall>j<i. faults j = NoFault) \<and>
                faults i = RaiseAfterYield e \<longrightarrow>
            body (stream_endpoint faults (Inr (JObj d))) =
              map (\<lambda>c. ''data: {"choices": [{"delta": {"content": '' @ dumps_str (c @ '' '') @ ''}}]}\<newline>\<newline>'') (take (Suc i) chunks) @ [''data: {"error": '' @ dumps_str e @ '', "code": 500}\<newline>\<newline>'']) \<and>
         (\<forall>e. json_dumps (PDict [(''error'', PStr e), (''code'', PInt 500)]) =
              ''{"error": '' @ dumps_str e @ '', "code": 500}'') \<and>
         (\<forall>e. ''data: [DONE]\<newline>\<newline>'' \<noteq> ''data: {"error": '' @ dumps_str e @ '', "code": 500}\<newline>\<newline>'') \<and>
         (\<forall>c e. ''data: {"choices": [{"delta": {"content": '' @ dumps_str (c @ '' '') @ ''}}]}\<newline>\<newline>'' \<noteq> ''data: [DONE]\<newline>\<newline>'' \<and>
                ''data: {"choices": [{"delta": {"content": '' @ dumps_str (c @ '' '') @ ''}}]}\<newline>\<newline>'' \<noteq> ''data: {"error": '' @ dumps_str e @ '', "code": 500}\<newline>\<newline>'')\<close>
proof -
  let ?r = "stream_endpoint faults (Inr (JObj d))"
  have nb: "\<forall>c\<in>set chunks. str_strip c \<noteq> []"
    unfolding assms(5) by (rule chunk_text_nonblank_all)
  have r: "status ?r = 200" "body ?r = generate_from faults 0 chunks"
    using valid_request_response [OF assms(1-4), of faults] assms(5)
    by (simp_all add: generate_def)
  have dt: \<open>delta_frame = (\<lambda>c. ''data: {"choices": [{"delta": {"content": '' @ dumps_str (c @ '' '') @ ''}}]}\<newline>\<newline>'')\<close>
    by (rule ext) (rule delta_frame_text)
  have 1: \<open>\<exists>k t. k \<le> length chunks \<and>
            body ?r = map (\<lambda>c. ''data: {"choices": [{"delta": {"content": '' @ dumps_str (c @ '' '') @ ''}}]}\<newline>\<newline>'') (take k chunks) @ [t] \<and>
            (if \<forall>j<length chunks. faults j = NoFault
             then t = ''data: [DONE]\<newline>\<newline>'' \<and> k = length chunks
             else \<exists>e. t = ''data: {"error": '' @ dumps_str e @ '', "code": 500}\<newline>\<newline>'') \<and>
            (\<forall>c. t \<noteq> ''data: {"choices": [{"delta": {"content": '' @ dumps_str (c @ '' '') @ ''}}]}\<newline>\<newline>'')\<close>
  proof -
    from generate_from_shape [OF nb, of faults 0] obtain k t where
      kt: "k \<le> length chunks"
          "generate_from faults 0 chunks = map delta_frame (take k chunks) @ [t]"
          "if \<forall>j<length chunks. faults j = NoFault
           then t = done_frame \<and> k = length chunks else \<exists>e. t = error_frame e"
      by auto
    have nd: "\<forall>c. t \<noteq> delta_frame c"
      using kt(3) frames_distinct by (metis (full_types))
    show ?thesis
      using kt nd unfolding r(2) dt done_frame_def error_frame_text by blast
  qed
  have 2: \<open>\<forall>i e. i < length chunks \<and> (\<forall>j<i. faults j = NoFault) \<and>
                faults i = RaiseBeforeYield e \<longrightarrow>
            body ?r = map (\<lambda>c. ''data: {"choices": [{"delta": {"content": '' @ dumps_str (c @ '' '') @ ''}}]}\<newline>\<newline>'') (take i chunks) @ [''data: {"error": '' @ dumps_str e @ '', "code": 500}\<newline>\<newline>'']\<close>
    using generate_from_first_fault [OF nb, of _ faults 0]
    unfolding r(2) dt error_frame_text by simp
  have 3: \<open>\<forall>i e. i < length chunks \<and> (\<forall>j<i. faults j = NoFault) \<and>
                faults i = RaiseAfterYield e \<longrightarrow>
            body ?r = map (\<lambda>c. ''data: {"choices": [{"delta": {"content": '' @ dumps_str (c @ '' '') @ ''}}]}\<newline>\<newline>'') (take (Suc i) chunks) @ [''data: {"error": '' @ dumps_str e @ '', "code": 500}\<newline>\<newline>'']\<close>
    using generate_from_first_fault [OF nb, of _ faults 0]
    unfolding r(2) dt error_frame_text by simp
  have 4: \<open>\<forall>e. json_dumps (PDict [(''error'', PStr e), (''code'', PInt 500)]) =
              ''{"error": '' @ dumps_str e @ '', "code": 500}''\<close>
    by (simp add: dumps_str_def escape_char_def str_int_500)
  have 5: \<open>\<forall>e. ''data: [DONE]\<newline>\<newline>'' \<noteq> ''data: {"error": '' @ dumps_str e @ '', "code": 500}\<newline>\<newline>''\<close>
    by simp
  have 6: \<open>\<forall>c e. ''data: {"choices": [{"delta": {"content": '' @ dumps_str (c @ '' '') @ ''}}]}\<newline>\<newline>'' \<noteq> ''data: [DONE]\<newline>\<newline>'' \<and>
                ''data: {"choices": [{"delta": {"content": '' @ dumps_str (c @ '' '') @ ''}}]}\<newline>\<newline>'' \<noteq> ''data: {"error": '' @ dumps_str e @ '', "code": 500}\<newline>\<newline>''\<close>
    by simp
  show ?thesis using r(1) 1 2 3 4 5 6 by blast
qed

theorem stream_terminates_once_witness:
  \<open>dict_get [(''prompt'', JStr ''hi''), (''stream'', JBool True)] ''prompt'' (JStr []) = JStr ''hi'' \<and>
   str_strip ''hi'' = ''hi'' \<and>
   truthy (dict_get [(''prompt'', JStr ''hi''), (''stream'', JBool True)] ''stream'' (JBool False)) \<and>
   body (stream_endpoint no_faults (Inr (JObj [(''prompt'', JStr ''hi''), (''stream'', JBool True)]))) =
     map (\<lambda>c. ''data: {"choices": [{"delta": {"content": '' @ dumps_str (c @ '' '') @ ''}}]}\<newline>\<newline>'') (chunk_text (generate_streaming_content ''hi'') 150) @
     [''data: [DONE]\<newline>\<newline>''] \<and>
   0 < length (chunk_text (generate_streaming_content ''hi'') 150) \<and>
   raise_after 0 ''boom'' 0 = RaiseAfterYield ''boom'' \<and>
   body (stream_endpoint (raise_after 0 ''boom'') (Inr (JObj [(''prompt'', JStr ''hi''), (''stream'', JBool True)]))) =
     map (\<lambda>c. ''data: {"choices": [{"delta": {"content": '' @ dumps_str (c @ '' '') @ ''}}]}\<newline>\<newline>'') (take 1 (chunk_text (generate_streaming_content ''hi'') 150)) @
     [''data: {"error": "boom", "code": 500}\<newline>\<newline>'']\<close>
proof -
  let ?chunks = "chunk_text (generate_streaming_content ''hi'') 150"
  have a: "dict_get [(''prompt'', JStr ''hi''), (''stream'', JBool True)] ''prompt'' (JStr []) = JStr ''hi''"
    by (simp add: dict_get_def)
  have b: "str_strip ''hi'' = ''hi''" by (simp add: str_strip_def isspace_def)
  have c: "truthy (dict_get [(''prompt'', JStr ''hi''), (''stream'', JBool True)] ''stream'' (JBool False))"
    by (simp add: dict_get_def)
  have b1: "str_strip ''hi'' \<noteq> []" and b2: "length (str_strip ''hi'') \<le> 5000"
    by (simp_all add: b)
  have ch: "?chunks = chunk_text (generate_streaming_content (str_strip ''hi'')) 150"
    by (simp add: b)
  have pos: "0 < length ?chunks"
    using chunk_text_nonempty [OF content_has_words, of "''hi''" 150] by simp
  have f: "raise_after 0 ''boom'' 0 = RaiseAfterYield ''boom''" by (simp add: raise_after_def)
  have boom: \<open>dumps_str ''boom'' = ''"boom"''\<close> by (simp add: dumps_str_def escape_char_def)
  from stream_terminates_once [OF a b1 b2 c ch, of no_faults]
  obtain k t where
    kt: \<open>body (stream_endpoint no_faults (Inr (JObj [(''prompt'', JStr ''hi''), (''stream'', JBool True)]))) =
           map (\<lambda>c. ''data: {"choices": [{"delta": {"content": '' @ dumps_str (c @ '' '') @ ''}}]}\<newline>\<newline>'') (take k ?chunks) @ [t]\<close>
        \<open>if \<forall>j<length ?chunks. no_faults j = NoFault
         then t = ''data: [DONE]\<newline>\<newline>'' \<and> k = length ?chunks
         else \<exists>e. t = ''data: {"error": '' @ dumps_str e @ '', "code": 500}\<newline>\<newline>''\<close>
    by blast
  from kt(2) have "t = ''data: [DONE]\<newline>\<newline>'' \<and> k = length ?chunks"
    by (simp add: no_faults_def)
  with kt(1) have ok: \<open>body (stream_endpoint no_faults (Inr (JObj [(''prompt'', JStr ''hi''), (''stream'', JBool True)]))) =
     map (\<lambda>c. ''data: {"choices": [{"delta": {"content": '' @ dumps_str (c @ '' '') @ ''}}]}\<newline>\<newline>'') ?chunks @ [''data: [DONE]\<newline>\<newline>'']\<close>
    by simp
  from stream_terminates_once [OF a b1 b2 c ch, of "raise_after 0 ''boom''"]
  have \<open>\<forall>i e. i < length ?chunks \<and> (\<forall>j<i. raise_after 0 ''boom'' j = NoFault) \<and>
                raise_after 0 ''boom'' i = RaiseAfterYield e \<longrightarrow>
            body (stream_endpoint (raise_after 0 ''boom'') (Inr (JObj [(''prompt'', JStr ''hi''), (''stream'', JBool True)]))) =
              map (\<lambda>c. ''data: {"choices": [{"delta": {"content": '' @ dumps_str (c @ '' '') @ ''}}]}\<newline>\<newline>'') (take (Suc i) ?chunks) @
              [''data: {"error": '' @ dumps_str e @ '', "code": 500}\<newline>\<newline>'']\<close>
    by blast
  from this [rule_format, of 0 "''boom''"] pos f
  have bad: \<open>body (stream_endpoint (raise_after 0 ''boom'') (Inr (JObj [(''prompt'', JStr ''hi''), (''stream'', JBool True)]))) =
     map (\<lambda>c. ''data: {"choices": [{"delta": {"content": '' @ dumps_str (c @ '' '') @ ''}}]}\<newline>\<newline>'') (take 1 ?chunks) @
     [''data: {"error": "boom", "code": 500}\<newline>\<newline>'']\<close>
    by (simp add: boom)
  show ?thesis using a b c ok pos f bad by blast
qed

text \<open>
  C8 (delta frame shape). For every valid request whose stream meets no fault, the body
  is, for each chunk in order, the frame \<open>data: <json>\n\n\<close> where \<open><json>\<close> is
  \<open>json.dumps\<close> of the object \<open>{"choices": [{"delta": {"content": c}}]}\<close> and \<open>c\<close> is the
  chunk followed by one space; then the sentinel. The content fields concatenated in
  order are the words of the synthesized content joined by single spaces, followed by one
  space.
\<close>

theorem delta_frame_shape:
  assumes "dict_get d ''prompt'' (JStr []) = JStr s" and "str_strip s \<noteq> []"
    and "length (str_strip s) \<le> 5000" and "truthy (dict_get d ''stream'' (JBool False))"
    and "\<forall>i. faults i = NoFault"
    and "content = generate_streaming_content (str_strip s)"
    and "chunks = chunk_text content 150"
  shows \<open>body (stream_endpoint faults (Inr (JObj d))) =
           map (\<lambda>c. ''data: '' @
                     json_dumps (PDict [(''choices'',
                        PList [PDict [(''delta'', PDict [(''content'', PStr (c @ '' ''))])]])]) @
                     ''\<newline>\<newline>'') chunks @
           [''data: [DONE]\<newline>\<newline>''] \<and>
         (\<forall>c. json_dumps (PDict [(''choices'',
                        PList [PDict [(''delta'', PDict [(''content'', PStr (c @ '' ''))])]])]) =
              ''{"choices": [{"delta": {"content": '' @ dumps_str (c @ '' '') @ ''}}]}'') \<and>
         concat (map (\<lambda>c. c @ '' '') chunks) = str_join '' '' (str_split content) @ '' ''\<close>
proof -
  have nb: "\<forall>c\<in>set chunks. str_strip c \<noteq> []"
    using chunk_text_trimmed unfolding assms(7) by metis
  have g: "generate faults chunks = map delta_frame chunks @ [done_frame]"
    unfolding generate_def using generate_from_no_fault [OF nb assms(5)] by simp
  have r: "body (stream_endpoint faults (Inr (JObj d))) = generate faults chunks"
    using valid_request_response [OF assms(1-4), of faults] assms(6,7) by simp
  have 1: \<open>body (stream_endpoint faults (Inr (JObj d))) =
           map (\<lambda>c. ''data: '' @
                     json_dumps (PDict [(''choices'',
                        PList [PDict [(''delta'', PDict [(''content'', PStr (c @ '' ''))])]])]) @
                     ''\<newline>\<newline>'') chunks @
           [''data: [DONE]\<newline>\<newline>'']\<close>
    unfolding r g by (simp add: delta_frame_def done_frame_def)
  have 2: \<open>\<forall>c. json_dumps (PDict [(''choices'',
                        PList [PDict [(''delta'', PDict [(''content'', PStr (c @ '' ''))])]])]) =
              ''{"choices": [{"delta": {"content": '' @ dumps_str (c @ '' '') @ ''}}]}''\<close>
    by (simp add: dumps_str_def escape_char_def)
  have "chunks \<noteq> []"
    unfolding assms(7) assms(6) using chunk_text_nonempty [OF content_has_words] .
  then have 3: "concat (map (\<lambda>c. c @ '' '') chunks) = str_join '' '' (str_split content) @ '' ''"
    using concat_trailing_sep [of chunks "'' ''"] chunk_text_joined [of content 150]
    unfolding assms(7) by simp
  show ?thesis using 1 2 3 by blast
qed

theorem delta_frame_shape_witness:
  \<open>dict_get [(''prompt'', JStr ''hi''), (''stream'', JBool True)] ''prompt'' (JStr []) = JStr ''hi'' \<and>
   str_strip ''hi'' = ''hi'' \<and>
   truthy (dict_get [(''prompt'', JStr ''hi''), (''stream'', JBool True)] ''stream'' (JBool False)) \<and>
   no_faults 0 = NoFault \<and>
   concat (map (\<lambda>c. c @ '' '') (chunk_text (generate_streaming_content ''hi'') 150)) =
     str_join '' '' (str_split (generate_streaming_content ''hi'')) @ '' ''\<close>
proof -
  have a: "dict_get [(''prompt'', JStr ''hi''), (''stream'', JBool True)] ''prompt'' (JStr []) = JStr ''hi''"
    by (simp add: dict_get_def)
  have b: "str_strip ''hi'' = ''hi''" by (simp add: str_strip_def isspace_def)
  have c: "truthy (dict_get [(''prompt'', JStr ''hi''), (''stream'', JBool True)] ''stream'' (JBool False))"
    by (simp add: dict_get_def)
  have b1: "str_strip ''hi'' \<noteq> []" and b2: "length (str_strip ''hi'') \<le> 5000"
    by (simp_all add: b)
  have f: "\<forall>i. no_faults i = NoFault" by (simp add: no_faults_def)
  from delta_frame_shape [OF a b1 b2 c f refl refl]
  have "concat (map (\<lambda>c. c @ '' '') (chunk_text (generate_streaming_content (str_strip ''hi'')) 150)) =
     str_join '' '' (str_split (generate_streaming_content (str_strip ''hi''))) @ '' ''"
    by blast
  then show ?thesis using a b c f by simp
qed

text \<open>
  C10 (prompt that is not a string). For every JSON object body whose \<open>prompt\<close> field is
  present and not a string, \<open>.strip()\<close> raises \<open>AttributeError\<close>, the outer handler
  catches it, and the response is status 500 with the single frame
  \<open>data: {"error": "Server error: ...", "code": 500}\n\n\<close>; no delta frame is sent.
\<close>

theorem non_string_prompt_server_error:
  assumes "map_of d ''prompt'' = Some v" and "\<forall>s. v \<noteq> JStr s"
  shows \<open>stream_endpoint faults (Inr (JObj d)) =
           \<lparr>status = 500, content_type = ''text/event-stream'', headers = [],
            body = [''data: {"error": '' @
                    dumps_str (''Server error: '' @ attribute_error v ''strip'') @
                    '', "code": 500}\<newline>\<newline>'']\<rparr> \<and>
         (\<forall>c. delta_frame c \<notin> set (body (stream_endpoint faults (Inr (JObj d)))))\<close>
proof -
  have d: "d \<noteq> []" using assms(1) by auto
  have g: "dict_get d ''prompt'' (JStr []) = v" using assms(1) by (simp add: dict_get_def)
  have t: "try_body faults (Inr (JObj d)) = Inl (attribute_error v ''strip'')"
    using d g assms(2) by (cases v) (simp_all add: try_body_def)
  have 1: \<open>stream_endpoint faults (Inr (JObj d)) =
           \<lparr>status = 500, content_type = ''text/event-stream'', headers = [],
            body = [''data: {"error": '' @
                    dumps_str (''Server error: '' @ attribute_error v ''strip'') @
                    '', "code": 500}\<newline>\<newline>'']\<rparr>\<close>
    by (simp add: stream_endpoint_def t dumps_str_def escape_char_def str_int_500)
  have \<open>\<forall>c. delta_frame c \<noteq> ''data: {"error": '' @
                    dumps_str (''Server error: '' @ attribute_error v ''strip'') @
                    '', "code": 500}\<newline>\<newline>''\<close>
    by (simp add: delta_frame_text)
  then show ?thesis unfolding 1 by simp
qed

theorem non_string_prompt_server_error_witness:
  \<open>map_of [(''prompt'', JInt 5), (''stream'', JBool True)] ''prompt'' = Some (JInt 5) \<and>
   (\<forall>s. JInt 5 \<noteq> JStr s) \<and>
   stream_endpoint no_faults (Inr (JObj [(''prompt'', JInt 5), (''stream'', JBool True)])) =
     \<lparr>status = 500, content_type = ''text/event-stream'', headers = [],
      body = [''data: {"error": "Server error: 'int' object has no attribute 'strip'", "code": 500}\<newline>\<newline>'']\<rparr>\<close>
proof -
  have a: "map_of [(''prompt'', JInt 5), (''stream'', JBool True)] ''prompt'' = Some (JInt 5)"
    by simp
  have b: "\<forall>s. JInt 5 \<noteq> JStr s" by simp
  have c: \<open>dumps_str (''Server error: '' @ attribute_error (JInt 5) ''strip'') =
            ''"Server error: 'int' object has no attribute 'strip'"''\<close>
    by (simp add: dumps_str_def escape_char_def attribute_error_def)
  show ?thesis
    using a b non_string_prompt_server_error [OF a b, of no_faults] unfolding c by simp
qed

end
